theory Spec2Isabelle
  imports Main "HOL-Library.List_Lexorder" "HOL-Library.Char_ord" "HOL-Library.Product_Lexorder"
begin

section \<open>The API handlers of terraboard (api/api.go)\<close>

text \<open>
  The handlers of \<^verbatim>\<open>api/api.go\<close> read a request, call the database or the state
  providers, marshal the answer to JSON and write it to the \<^verbatim>\<open>http.ResponseWriter\<close>.
  Everything a handler does besides computing is made explicit here: the bytes written,
  the messages logged and the database accessors called are fields of a state that each
  handler takes and returns.
\<close>

subsection \<open>Errors\<close>

text \<open>
  A Go \<^verbatim>\<open>error\<close> is a value with a message (\<^verbatim>\<open>err.Error()\<close>, which is also what
  \<^verbatim>\<open>fmt.Sprintf("%v", err)\<close> prints). The kinds are the taxonomy of the specification;
  \<open>OtherError\<close> stands for any error of a collaborator outside that taxonomy (a failed
  write, a failed marshal, a provider's own error).
\<close>

datatype error_kind =
    MalformedSnapshotError
  | UnknownLineageError
  | VersionNotFoundError
  | DivergentVersionError
  | ProviderUnavailableError
  | IncomparableSnapshotError
  | OtherError

datatype error = Err (kind: error_kind) (Error: string)

subsection \<open>The response writer, the log and the trace of database calls\<close>

datatype call =
    DefaultVersionCall string
  | GetStateCall string string

record World =
  body :: string
  werr :: "error option"
  logged :: "string list"
  calls :: "call list"

text \<open>
  \<open>body\<close> holds the bytes written to the \<^verbatim>\<open>http.ResponseWriter\<close> so far, \<open>werr\<close> the
  error that a write to it returns (\<open>None\<close> for a writer that works), \<open>logged\<close> the
  messages given to \<^verbatim>\<open>log.Error\<close>, and \<open>calls\<close> the accessors of the database called
  so far, in order, with their arguments. A write either appends all its bytes or fails
  and appends none.
\<close>

definition WriteString :: "World \<Rightarrow> string \<Rightarrow> World \<times> error option" where
  "WriteString w s =
     (case werr w of
        None \<Rightarrow> (w\<lparr>body := body w @ s\<rparr>, None)
      | Some e \<Rightarrow> (w, Some e))"

text \<open>
  Every handler ends with
  \<^verbatim>\<open>if _, err := io.WriteString(w, string(j)); err != nil { log.Error(err.Error()) }\<close>.
\<close>

definition write_or_log :: "World \<Rightarrow> string \<Rightarrow> World" where
  "write_or_log w j =
     (case WriteString w j of
        (w', None) \<Rightarrow> w'
      | (w', Some err) \<Rightarrow> w'\<lparr>logged := logged w' @ [Error err]\<rparr>)"

subsection \<open>JSON marshalling\<close>

text \<open>
  \<^verbatim>\<open>encoding/json\<close> is a library, not code of this repository. Two of its behaviours
  are parameters of the model: \<open>quote\<close>, the encoding of a Go string as a JSON string
  literal (with the library's escaping), and \<open>marshal\<close>, \<^verbatim>\<open>json.Marshal\<close> on a value of
  the payload type of the handler, which may fail. What the library does with a Go map
  is modelled: an object whose members are in the order of the sorted keys, the first
  failing value failing the whole call.
\<close>

record 'v Json =
  quote :: "string \<Rightarrow> string"
  marshal :: "'v \<Rightarrow> error + string"

fun join :: "string \<Rightarrow> string list \<Rightarrow> string" where
  "join sep [] = []"
| "join sep [s] = s"
| "join sep (s # t # ss) = s @ sep @ join sep (t # ss)"

fun marshal_members ::
  "(string \<Rightarrow> string) \<Rightarrow> ('a \<Rightarrow> error + string) \<Rightarrow> (string \<rightharpoonup> 'a) \<Rightarrow> string list
     \<Rightarrow> error + string list" where
  "marshal_members q mv m [] = Inr []"
| "marshal_members q mv m (k # ks) =
     (case m k of
        None \<Rightarrow> marshal_members q mv m ks
      | Some v \<Rightarrow>
          (case mv v of
             Inl err \<Rightarrow> Inl err
           | Inr s \<Rightarrow>
               (case marshal_members q mv m ks of
                  Inl err \<Rightarrow> Inl err
                | Inr ss \<Rightarrow> Inr ((q k @ '':'' @ s) # ss))))"

definition marshal_map ::
  "(string \<Rightarrow> string) \<Rightarrow> ('a \<Rightarrow> error + string) \<Rightarrow> (string \<rightharpoonup> 'a) \<Rightarrow> error + string" where
  "marshal_map q mv m =
     (case marshal_members q mv m (sorted_list_of_set (dom m)) of
        Inl err \<Rightarrow> Inl err
      | Inr ss \<Rightarrow> Inr (''{'' @ join '','' ss @ ''}''))"

subsection \<open>JSONError\<close>

text \<open>
  \<^verbatim>\<open>JSONError(w, message, err)\<close> builds the map with the keys \<^verbatim>\<open>"error"\<close> and
  \<^verbatim>\<open>"details"\<close>, marshals it (the error of \<^verbatim>\<open>json.Marshal\<close> is dropped: a map of
  strings cannot fail) and writes it.
\<close>

definition JSONError :: "'v Json \<Rightarrow> World \<Rightarrow> string \<Rightarrow> error \<Rightarrow> World" where
  "JSONError js w message err =
     (let errObj = [''error'' \<mapsto> message, ''details'' \<mapsto> Error err];
          j = (case marshal_map (quote js) (\<lambda>s. Inr (quote js s)) errObj of
                 Inl _ \<Rightarrow> []
               | Inr s \<Rightarrow> s)
      in write_or_log w j)"

subsection \<open>GetLocks\<close>

text \<open>
  Modelled from the spec: the struct \<^verbatim>\<open>state.LockInfo\<close> is not part of the source at
  hand. The specification gives a lock report four attributes: the holder, the time of
  acquisition, a description of the operation and the key of the lineage.
\<close>

record LockInfo =
  holder :: string
  timestamp :: int
  operation :: string
  lineage :: string

text \<open>
  A \<^verbatim>\<open>state.Provider\<close> is used through one method only, \<^verbatim>\<open>GetLocks()\<close>, called once:
  a provider is what that call returns, an error or a map from lineage keys to locks.
\<close>

type_synonym Locks = "string \<rightharpoonup> LockInfo"

type_synonym Provider = "error + Locks"

text \<open>
  The loop over the providers. The inner loop \<^verbatim>\<open>for k, v := range locks { allLocks[k] = v }\<close>
  stores every entry of \<open>locks\<close> in \<open>allLocks\<close>, whatever the order of iteration:
  \<open>allLocks ++ locks\<close>. The first provider that fails ends the loop with its error.
\<close>

fun collect_locks :: "Locks \<Rightarrow> Provider list \<Rightarrow> error + Locks" where
  "collect_locks allLocks [] = Inr allLocks"
| "collect_locks allLocks (sp # sps) =
     (case sp of
        Inl err \<Rightarrow> Inl err
      | Inr locks \<Rightarrow> collect_locks (allLocks ++ locks) sps)"

definition GetLocks :: "LockInfo Json \<Rightarrow> World \<Rightarrow> Provider list \<Rightarrow> World" where
  "GetLocks js w sps =
     (case collect_locks Map.empty sps of
        Inl err \<Rightarrow> JSONError js w ''Failed to get locks on a provider'' err
      | Inr allLocks \<Rightarrow>
          (case marshal_map (quote js) (marshal js) allLocks of
             Inl err \<Rightarrow> JSONError js w ''Failed to marshal locks'' err
           | Inr j \<Rightarrow> write_or_log w j))"

subsection \<open>Requests and the database\<close>

text \<open>
  Of a request the handlers read the route variables (\<^verbatim>\<open>mux.Vars(r)\<close>, a map of
  strings) and the query (\<^verbatim>\<open>r.URL.Query()\<close>, a map from a key to its values).
  Indexing a Go map at a missing key gives the zero value, the empty string;
  \<^verbatim>\<open>url.Values.Get\<close> gives the first value of a key, or the empty string.
\<close>

record Request =
  vars :: "string \<rightharpoonup> string"
  query :: "string \<rightharpoonup> string list"

definition index :: "(string \<rightharpoonup> string) \<Rightarrow> string \<Rightarrow> string" where
  "index m k = (case m k of None \<Rightarrow> [] | Some v \<Rightarrow> v)"

definition Get :: "(string \<rightharpoonup> string list) \<Rightarrow> string \<Rightarrow> string" where
  "Get q k = (case q k of None \<Rightarrow> [] | Some [] \<Rightarrow> [] | Some (v # _) \<Rightarrow> v)"

text \<open>
  The package \<^verbatim>\<open>db\<close> is not part of the source at hand. The two accessors that the
  handlers below call are fields of the database: \<^verbatim>\<open>d.DefaultVersion(lineage)\<close>, which
  returns a version identifier or an error, and \<^verbatim>\<open>d.GetState(lineage, versionID)\<close>, which
  returns a state and no error. Each call is recorded in the trace.
\<close>

record 's Database =
  db_DefaultVersion :: "string \<Rightarrow> error + string"
  db_GetState :: "string \<Rightarrow> string \<Rightarrow> 's"

definition call_DefaultVersion :: "'s Database \<Rightarrow> World \<Rightarrow> string \<Rightarrow> World \<times> (error + string)" where
  "call_DefaultVersion d w l = (w\<lparr>calls := calls w @ [DefaultVersionCall l]\<rparr>, db_DefaultVersion d l)"

definition call_GetState :: "'s Database \<Rightarrow> World \<Rightarrow> string \<Rightarrow> string \<Rightarrow> World \<times> 's" where
  "call_GetState d w l v = (w\<lparr>calls := calls w @ [GetStateCall l v]\<rparr>, db_GetState d l v)"

subsection \<open>GetState\<close>

definition GetState :: "'s Json \<Rightarrow> World \<Rightarrow> Request \<Rightarrow> 's Database \<Rightarrow> World" where
  "GetState js w r d =
     (let params = vars r;
          versionID = Get (query r) ''versionid''
      in case (if versionID = []
               then call_DefaultVersion d w (index params ''lineage'')
               else (w, Inr versionID)) of
           (w1, Inl err) \<Rightarrow> JSONError js w1 ''Failed to retrieve default version'' err
         | (w1, Inr versionID) \<Rightarrow>
             (case call_GetState d w1 (index params ''lineage'') versionID of
                (w2, state) \<Rightarrow>
                  (case marshal js state of
                     Inl err \<Rightarrow> JSONError js w2 ''Failed to marshal state'' err
                   | Inr j \<Rightarrow> write_or_log w2 j)))"

subsection \<open>StateCompare\<close>

text \<open>
  \<^verbatim>\<open>compare.Compare\<close> is a function of another package: the handler takes it as the
  parameter \<open>Compare\<close>.
\<close>

definition StateCompare ::
  "('s \<Rightarrow> 's \<Rightarrow> error + 'c) \<Rightarrow> 'c Json \<Rightarrow> World \<Rightarrow> Request \<Rightarrow> 's Database \<Rightarrow> World" where
  "StateCompare Compare js w r d =
     (let params = vars r;
          fromVersion = Get (query r) ''from'';
          toVersion = Get (query r) ''to''
      in case call_GetState d w (index params ''lineage'') fromVersion of
           (w1, from) \<Rightarrow>
             (case call_GetState d w1 (index params ''lineage'') toVersion of
                (w2, to) \<Rightarrow>
                  (case Compare from to of
                     Inl err \<Rightarrow> JSONError js w2 ''Failed to compare state versions'' err
                   | Inr compare \<Rightarrow>
                       (case marshal js compare of
                          Inl err \<Rightarrow> JSONError js w2 ''Failed to marshal state compare'' err
                        | Inr j \<Rightarrow> write_or_log w2 j))))"

section \<open>The lineage registry\<close>

text \<open>
  Modelled from the spec: the package \<^verbatim>\<open>db\<close>, with \<^verbatim>\<open>DefaultVersion\<close> and the
  loading of a version, is not part of the source at hand. The specification gives a
  version its owning lineage key, a serial that orders the versions of a lineage, a
  content hash and a payload; the handlers name a version by an identifier, a string.
  \<open>DefaultVersion\<close> resolves to the most recent version of the lineage by serial and
  fails with \<open>UnknownLineageError\<close> if the lineage has no versions.
\<close>

record 's Version =
  owning_lineage :: string
  version_id :: string
  serial :: nat
  content_hash :: string
  payload :: 's

type_synonym 's Registry = "'s Version list"

definition versions_of :: "'s Registry \<Rightarrow> string \<Rightarrow> 's Version list" where
  "versions_of reg l = filter (\<lambda>v. owning_lineage v = l) reg"

text \<open>
  Modelled from the spec: the most recent version is the one with the highest serial;
  \<open>DefaultVersion\<close> returns its identifier, or \<open>UnknownLineageError\<close> for a lineage without
  versions.
\<close>

fun most_recent :: "'s Version \<Rightarrow> 's Version list \<Rightarrow> 's Version" where
  "most_recent best [] = best"
| "most_recent best (v # vs) = most_recent (if serial best < serial v then v else best) vs"

definition DefaultVersion :: "'s Registry \<Rightarrow> string \<Rightarrow> error + string" where
  "DefaultVersion reg l =
     (case versions_of reg l of
        [] \<Rightarrow> Inl (Err UnknownLineageError l)
      | v # vs \<Rightarrow> Inr (version_id (most_recent v vs)))"

text \<open>
  Modelled from the spec: a version identifier belongs to a lineage when a version of
  that lineage is recorded under it.
\<close>

definition belongs :: "'s Registry \<Rightarrow> string \<Rightarrow> string \<Rightarrow> bool" where
  "belongs reg l v = (v \<in> set (map version_id (versions_of reg l)))"

text \<open>
  Modelled from the spec: the persistence accessor \<^verbatim>\<open>LoadVersion(lineage, versionID)\<close>
  returns a snapshot and has no failure in the specification, as \<^verbatim>\<open>d.GetState\<close> in the
  handlers returns a state and no error: for a version that is not recorded the result
  is a value \<open>zero\<close> of the state type.
\<close>

definition LoadVersion :: "'s Registry \<Rightarrow> 's \<Rightarrow> string \<Rightarrow> string \<Rightarrow> 's" where
  "LoadVersion reg zero l v =
     (case find (\<lambda>x. owning_lineage x = l \<and> version_id x = v) reg of
        None \<Rightarrow> zero
      | Some x \<Rightarrow> payload x)"

definition database_of :: "'s Registry \<Rightarrow> 's \<Rightarrow> 's Database" where
  "database_of reg zero =
     \<lparr>db_DefaultVersion = DefaultVersion reg, db_GetState = LoadVersion reg zero\<rparr>"

section \<open>The diff engine\<close>

text \<open>
  Modelled from the spec: the package \<^verbatim>\<open>compare\<close> is not part of the source at hand.
  An attribute tree, once flattened, maps a resource identifier (module path, type, name,
  index) to the attributes of the resource, a map from an attribute path to a value. Both
  maps are lists of pairs here, in the order in which an iteration meets the entries: the
  same map may be met in any order of its entries. A tree is well formed when no key
  occurs twice.
\<close>

type_synonym resource_id = "string \<times> string \<times> string \<times> string"

type_synonym 'v Attributes = "(string \<times> 'v) list"

type_synonym 'v AttributeTree = "(resource_id \<times> 'v Attributes) list"

datatype change_kind = added | removed | modified

record 'v ChangeEntry =
  resource :: resource_id
  path :: string
  change :: change_kind
  old_value :: "'v option"
  new_value :: "'v option"

definition well_formed :: "'v AttributeTree \<Rightarrow> bool" where
  "well_formed t = (distinct (map fst t) \<and> list_all (\<lambda>(r, a). distinct (map fst a)) t)"

text \<open>
  Modelled from the spec: two lists present the same tree when they hold the same
  resources with the same attributes, in whatever order.
\<close>

definition same_tree :: "'v AttributeTree \<Rightarrow> 'v AttributeTree \<Rightarrow> bool" where
  "same_tree s t = (set (map (\<lambda>(r, a). (r, set a)) s) = set (map (\<lambda>(r, a). (r, set a)) t))"

text \<open>
  Modelled from the spec: the value that a tree holds for a resource and an attribute
  path, if any.
\<close>

definition attribute_at :: "'v AttributeTree \<Rightarrow> resource_id \<Rightarrow> string \<Rightarrow> 'v option" where
  "attribute_at t r p = (case map_of t r of None \<Rightarrow> None | Some a \<Rightarrow> map_of a p)"

text \<open>
  Modelled from the spec: steps 1 and 2 of the algorithm of the diff engine. A resource
  of one tree only gives one entry for each attribute it holds. (The marker of the resource itself is not a change entry: an entry
  has an attribute path and values, and the scenario of the specification counts the
  attribute entries only.)
\<close>

definition removed_resource :: "resource_id \<Rightarrow> 'v Attributes \<Rightarrow> 'v ChangeEntry list" where
  "removed_resource r a =
     map (\<lambda>(p, x). \<lparr>resource = r, path = p, change = removed, old_value = Some x, new_value = None\<rparr>) a"

definition added_resource :: "resource_id \<Rightarrow> 'v Attributes \<Rightarrow> 'v ChangeEntry list" where
  "added_resource r b =
     map (\<lambda>(p, y). \<lparr>resource = r, path = p, change = added, old_value = None, new_value = Some y\<rparr>) b"

text \<open>
  Modelled from the spec: step 3. For a resource of both trees, each attribute path
  present in either tree is compared: present in one tree only, it is removed or added;
  present in both with equal values, it gives no entry; with unequal values, it is
  modified and the entry carries both values. (Step 4, lists compared index by index, is
  the work of the flattening: an element of a list is an attribute path of its own.)
\<close>

fun compare_values :: "resource_id \<Rightarrow> string \<Rightarrow> 'v option \<Rightarrow> 'v option \<Rightarrow> 'v ChangeEntry list" where
  "compare_values r p (Some x) None =
     [\<lparr>resource = r, path = p, change = removed, old_value = Some x, new_value = None\<rparr>]"
| "compare_values r p None (Some y) =
     [\<lparr>resource = r, path = p, change = added, old_value = None, new_value = Some y\<rparr>]"
| "compare_values r p (Some x) (Some y) =
     (if x = y then []
      else [\<lparr>resource = r, path = p, change = modified, old_value = Some x, new_value = Some y\<rparr>])"
| "compare_values r p None None = []"

definition paths_of :: "'v Attributes \<Rightarrow> 'v Attributes \<Rightarrow> string list" where
  "paths_of a b = map fst a @ filter (\<lambda>p. map_of a p = None) (map fst b)"

definition compare_resource :: "resource_id \<Rightarrow> 'v Attributes \<Rightarrow> 'v Attributes \<Rightarrow> 'v ChangeEntry list" where
  "compare_resource r a b =
     concat (map (\<lambda>p. compare_values r p (map_of a p) (map_of b p)) (paths_of a b))"

text \<open>
  Modelled from the spec: the entries of the three groups of resources, those of the
  first tree only, those of the second tree only and those of both.
\<close>

definition removed_resources :: "'v AttributeTree \<Rightarrow> 'v AttributeTree \<Rightarrow> 'v ChangeEntry list" where
  "removed_resources fromTree toTree =
     concat (map (\<lambda>(r, a). case map_of toTree r of None \<Rightarrow> removed_resource r a | Some _ \<Rightarrow> []) fromTree)"

definition added_resources :: "'v AttributeTree \<Rightarrow> 'v AttributeTree \<Rightarrow> 'v ChangeEntry list" where
  "added_resources fromTree toTree =
     concat (map (\<lambda>(r, b). case map_of fromTree r of None \<Rightarrow> added_resource r b | Some _ \<Rightarrow> []) toTree)"

definition common_resources :: "'v AttributeTree \<Rightarrow> 'v AttributeTree \<Rightarrow> 'v ChangeEntry list" where
  "common_resources fromTree toTree =
     concat (map (\<lambda>(r, a). case map_of toTree r of None \<Rightarrow> [] | Some b \<Rightarrow> compare_resource r a b) fromTree)"

definition changes :: "'v AttributeTree \<Rightarrow> 'v AttributeTree \<Rightarrow> 'v ChangeEntry list" where
  "changes fromTree toTree =
     removed_resources fromTree toTree @ added_resources fromTree toTree @ common_resources fromTree toTree"

text \<open>
  Modelled from the spec: step 5. The entries are sorted by resource identifier, then by
  attribute path, both in lexicographic order. \<open>Compare\<close> fails with
  \<open>IncomparableSnapshotError\<close> only if one of the trees is malformed.
\<close>

definition entry_key :: "'v ChangeEntry \<Rightarrow> resource_id \<times> string" where
  "entry_key e = (resource e, path e)"

definition Compare :: "'v AttributeTree \<Rightarrow> 'v AttributeTree \<Rightarrow> error + 'v ChangeEntry list" where
  "Compare fromTree toTree =
     (if well_formed fromTree \<and> well_formed toTree
      then Inr (sort_key entry_key (changes fromTree toTree))
      else Inl (Err IncomparableSnapshotError ''malformed attribute tree''))"

section \<open>Auxiliary definitions\<close>

text \<open>The lineage that a database call names.\<close>

fun call_lineage :: "call \<Rightarrow> string" where
  "call_lineage (DefaultVersionCall l) = l"
| "call_lineage (GetStateCall l v) = l"

text \<open>The bytes that \<open>JSONError\<close> hands to the writer.\<close>

definition error_payload :: "'v Json \<Rightarrow> string \<Rightarrow> error \<Rightarrow> string" where
  "error_payload js message err =
     ''{'' @ quote js ''details'' @ '':'' @ quote js (Error err) @ '','' @
            quote js ''error'' @ '':'' @ quote js message @ ''}''"

text \<open>
  A JSON object with one member for each key of \<open>ks\<close>, in that order: the quoted key, a
  colon and the text \<open>f\<close> gives for the key.
\<close>

definition object_of :: "(string \<Rightarrow> string) \<Rightarrow> (string \<Rightarrow> string) \<Rightarrow> string list \<Rightarrow> string" where
  "object_of q f ks = ''{'' @ join '','' (map (\<lambda>k. q k @ '':'' @ f k) ks) @ ''}''"

subsection \<open>Concrete inputs\<close>

text \<open>
  The values below are the inputs of the concrete evaluations. \<open>plain_quote\<close> is the JSON
  encoding of a string in which no character needs an escape. The encoders render a lock
  by its holder, a snapshot that is a string as that string, and a list of change
  entries by the paths of its entries.
\<close>

definition plain_quote :: "string \<Rightarrow> string" where
  "plain_quote s = ''\"'' @ s @ ''\"''"

definition example_json :: "LockInfo Json" where
  "example_json = \<lparr>quote = plain_quote, marshal = (\<lambda>l. Inr (plain_quote (holder l)))\<rparr>"

definition string_json :: "string Json" where
  "string_json = \<lparr>quote = plain_quote, marshal = (\<lambda>s. Inr (plain_quote s))\<rparr>"

definition entries_json :: "string ChangeEntry list Json" where
  "entries_json =
     \<lparr>quote = plain_quote,
      marshal = (\<lambda>es. Inr (''['' @ join '','' (map (\<lambda>e. plain_quote (path e)) es) @ '']''))\<rparr>"

definition w0 :: World where
  "w0 = \<lparr>body = [], werr = None, logged = [], calls = []\<rparr>"

definition request :: "string \<Rightarrow> (string \<times> string) list \<Rightarrow> Request" where
  "request l q = \<lparr>vars = [''lineage'' \<mapsto> l], query = map_of (map (\<lambda>(k, v). (k, [v])) q)\<rparr>"

definition lockA :: LockInfo where
  "lockA = \<lparr>holder = ''alice'', timestamp = 1700000000, operation = ''OperationTypeApply'',
            lineage = ''prod/vpc''\<rparr>"

definition lockB :: LockInfo where
  "lockB = \<lparr>holder = ''bob'', timestamp = 1700000300, operation = ''OperationTypePlan'',
            lineage = ''prod/vpc''\<rparr>"

definition lockA' :: LockInfo where
  "lockA' = \<lparr>holder = ''alice'', timestamp = 1700000000, operation = ''OperationTypePlan'',
             lineage = ''prod/vpc''\<rparr>"

definition lock_providers :: "Provider list" where
  "lock_providers =
     [Inr [''prod/vpc'' \<mapsto> lockA], Inr [''prod/vpc'' \<mapsto> lockA'], Inr [''prod/db'' \<mapsto> lockB]]"

definition prod_vpc_registry :: "string Registry" where
  "prod_vpc_registry =
     [\<lparr>owning_lineage = ''prod/vpc'', version_id = ''v1'', serial = 1, content_hash = ''h1'',
       payload = ''snapshot-1''\<rparr>,
      \<lparr>owning_lineage = ''prod/vpc'', version_id = ''v2'', serial = 2, content_hash = ''h2'',
       payload = ''snapshot-2''\<rparr>]"

definition vpc_main :: resource_id where
  "vpc_main = (''root'', ''aws_vpc'', ''main'', [])"

definition subnet_a :: resource_id where
  "subnet_a = (''root'', ''aws_subnet'', ''a'', [])"

definition prod_vpc_v1 :: "string AttributeTree" where
  "prod_vpc_v1 = [(vpc_main, [(''cidr_block'', ''10.0.0.0/16''), (''tags.Name'', ''main'')])]"

definition prod_vpc_v1' :: "string AttributeTree" where
  "prod_vpc_v1' = [(vpc_main, [(''tags.Name'', ''main''), (''cidr_block'', ''10.0.0.0/16'')])]"

definition prod_vpc_v2 :: "string AttributeTree" where
  "prod_vpc_v2 = [(vpc_main, [(''cidr_block'', ''10.1.0.0/16''), (''tags.Name'', ''main'')]),
                  (subnet_a, [(''cidr_block'', ''10.1.1.0/24'')])]"

definition prod_vpc_v2' :: "string AttributeTree" where
  "prod_vpc_v2' = [(subnet_a, [(''cidr_block'', ''10.1.1.0/24'')]),
                   (vpc_main, [(''tags.Name'', ''main''), (''cidr_block'', ''10.1.0.0/16'')])]"

definition tree_registry :: "string AttributeTree Registry" where
  "tree_registry =
     [\<lparr>owning_lineage = ''prod/vpc'', version_id = ''v1'', serial = 1, content_hash = ''h1'',
       payload = prod_vpc_v1\<rparr>,
      \<lparr>owning_lineage = ''prod/vpc'', version_id = ''v2'', serial = 2, content_hash = ''h2'',
       payload = prod_vpc_v2\<rparr>]"

section \<open>Auxiliary facts\<close>

subsection \<open>Writing and marshalling\<close>

lemma marshal_map_empty: "marshal_map q mv Map.empty = Inr ''{}''"
  by (simp add: marshal_map_def)

lemma marshal_errObj:
  "marshal_map q (\<lambda>s. Inr (q s)) [''error'' \<mapsto> message, ''details'' \<mapsto> d]
     = Inr (''{'' @ q ''details'' @ '':'' @ q d @ '','' @ q ''error'' @ '':'' @ q message @ ''}'')"
  by (simp add: marshal_map_def)

lemma marshal_members_map:
  "(\<And>k v. m k = Some v \<Longrightarrow> mv v = Inr (f k)) \<Longrightarrow> set ks \<subseteq> dom m \<Longrightarrow>
   marshal_members q mv m ks = Inr (map (\<lambda>k. q k @ '':'' @ f k) ks)"
  by (induction ks) (auto split: option.splits)

lemma marshal_map_object:
  assumes "\<And>k v. m k = Some v \<Longrightarrow> mv v = Inr (f k)"
  shows "marshal_map q mv m = Inr (object_of q f (sorted_list_of_set (dom m)))"
proof -
  have "set (sorted_list_of_set (dom m)) \<subseteq> dom m"
    by (cases "finite (dom m)") simp_all
  from marshal_members_map[of m mv f, OF assms this]
  show ?thesis by (simp add: marshal_map_def object_of_def)
qed

lemma JSONError_eq: "JSONError js w message err = write_or_log w (error_payload js message err)"
  by (simp add: JSONError_def marshal_errObj error_payload_def)

lemma write_or_log_ok: "werr w = None \<Longrightarrow> write_or_log w j = w\<lparr>body := body w @ j\<rparr>"
  by (simp add: write_or_log_def WriteString_def)

lemma write_or_log_broken: "werr w = Some e \<Longrightarrow> write_or_log w j = w\<lparr>logged := logged w @ [Error e]\<rparr>"
  by (simp add: write_or_log_def WriteString_def)

lemma collect_locks_fail:
  "\<forall>p \<in> set pre. \<not> isl p \<Longrightarrow> collect_locks acc (pre @ Inl err # rest) = Inl err"
  by (induction pre arbitrary: acc) (auto split: sum.splits)

lemma collect_locks_all_ok:
  "collect_locks acc sps = Inr m \<Longrightarrow> \<forall>p \<in> set sps. \<not> isl p"
  by (induction sps arbitrary: acc) (auto split: sum.splits)

lemma collect_locks_snoc:
  "collect_locks acc (sps @ [Inr l]) = (case collect_locks acc sps of Inl e \<Rightarrow> Inl e | Inr m \<Rightarrow> Inr (m ++ l))"
  by (induction sps arbitrary: acc) (auto split: sum.splits)

lemma collect_locks_last:
  "collect_locks acc sps = Inr m \<Longrightarrow> j < length sps \<Longrightarrow> sps ! j = Inr lj \<Longrightarrow> lj k = Some v \<Longrightarrow>
   (\<forall>n. j < n \<and> n < length sps \<longrightarrow> (\<forall>ln. sps ! n = Inr ln \<longrightarrow> ln k = None)) \<Longrightarrow> m k = Some v"
proof (induction sps arbitrary: acc j)
  case Nil
  then show ?case by simp
next
  case (Cons sp sps)
  from Cons.prems(1) obtain l where sp: "sp = Inr l" and rest: "collect_locks (acc ++ l) sps = Inr m"
    by (auto split: sum.splits)
  show ?case
  proof (cases j)
    case 0
    with Cons.prems sp have lk: "l k = Some v" by simp
    have none: "\<forall>n < length sps. \<forall>ln. sps ! n = Inr ln \<longrightarrow> ln k = None"
      using Cons.prems(5) 0 by auto
    have "\<And>a. collect_locks a sps = Inr m \<Longrightarrow> \<forall>n < length sps. \<forall>ln. sps ! n = Inr ln \<longrightarrow> ln k = None \<Longrightarrow> m k = a k"
    proof (induction sps)
      case Nil then show ?case by simp
    next
      case (Cons q qs)
      from Cons.prems(1) obtain lq where q: "q = Inr lq" and r: "collect_locks (a ++ lq) qs = Inr m"
        by (auto split: sum.splits)
      have "lq k = None" using Cons.prems(2) q by auto
      moreover have "\<forall>n < length qs. \<forall>ln. qs ! n = Inr ln \<longrightarrow> ln k = None" using Cons.prems(2) by auto
      ultimately show ?case using Cons.IH[OF r] by (simp add: map_add_def)
    qed
    from this[OF rest none] lk show ?thesis by (simp add: map_add_def)
  next
    case (Suc j')
    have "\<forall>n. j' < n \<and> n < length sps \<longrightarrow> (\<forall>ln. sps ! n = Inr ln \<longrightarrow> ln k = None)"
      using Cons.prems(5) Suc by auto
    with Cons.IH[OF rest, of j'] Cons.prems Suc show ?thesis by simp
  qed
qed

lemma collect_locks_dom:
  "collect_locks acc sps = Inr m \<Longrightarrow> dom m = dom acc \<union> (\<Union>p \<in> set sps. case p of Inl _ \<Rightarrow> {} | Inr l \<Rightarrow> dom l)"
  by (induction sps arbitrary: acc) (auto split: sum.splits)


lemma count_list_distinct: "distinct xs \<Longrightarrow> x \<in> set xs \<Longrightarrow> count_list xs x = 1"
  by (induction xs) auto


lemma calls_write_or_log: "calls (write_or_log w j) = calls w"
  by (simp add: write_or_log_def WriteString_def split: option.splits)

lemma calls_JSONError: "calls (JSONError js w message err) = calls w"
  by (simp add: JSONError_eq calls_write_or_log)

lemma body_write_or_log: "werr w = None \<Longrightarrow> body (write_or_log w j) = body w @ j"
  by (simp add: write_or_log_ok)

lemma logged_write_or_log: "werr w = None \<Longrightarrow> logged (write_or_log w j) = logged w"
  by (simp add: write_or_log_ok)

lemma GetState_empty_versionid:
  assumes "Get (query r) ''versionid'' = []"
  shows "GetState js w r d =
     (case db_DefaultVersion d (index (vars r) ''lineage'') of
        Inl err \<Rightarrow> JSONError js (w\<lparr>calls := calls w @ [DefaultVersionCall (index (vars r) ''lineage'')]\<rparr>)
                     ''Failed to retrieve default version'' err
      | Inr v \<Rightarrow>
          (case marshal js (db_GetState d (index (vars r) ''lineage'') v) of
             Inl err \<Rightarrow> JSONError js (w\<lparr>calls := calls w @ [DefaultVersionCall (index (vars r) ''lineage''),
                                                          GetStateCall (index (vars r) ''lineage'') v]\<rparr>)
                          ''Failed to marshal state'' err
           | Inr j \<Rightarrow> write_or_log (w\<lparr>calls := calls w @ [DefaultVersionCall (index (vars r) ''lineage''),
                                                          GetStateCall (index (vars r) ''lineage'') v]\<rparr>) j))"
  using assms
  by (simp add: GetState_def Let_def call_DefaultVersion_def call_GetState_def split: sum.splits)

lemma GetState_explicit_versionid:
  assumes "Get (query r) ''versionid'' = v" and "v \<noteq> []"
  shows "GetState js w r d =
     (case marshal js (db_GetState d (index (vars r) ''lineage'') v) of
        Inl err \<Rightarrow> JSONError js (w\<lparr>calls := calls w @ [GetStateCall (index (vars r) ''lineage'') v]\<rparr>)
                     ''Failed to marshal state'' err
      | Inr j \<Rightarrow> write_or_log (w\<lparr>calls := calls w @ [GetStateCall (index (vars r) ''lineage'') v]\<rparr>) j)"
  using assms
  by (simp add: GetState_def Let_def call_GetState_def split: sum.splits)


subsection \<open>The diff engine\<close>

lemma well_formed_attrs: "well_formed t \<Longrightarrow> (r, a) \<in> set t \<Longrightarrow> distinct (map fst a)"
  by (auto simp: well_formed_def list_all_iff)

lemma well_formed_map_of: "well_formed t \<Longrightarrow> (map_of t r = Some a) = ((r, a) \<in> set t)"
  by (simp add: well_formed_def)

lemma attribute_at_Some:
  assumes "well_formed t"
  shows "(attribute_at t r p = Some x) = (\<exists>a. (r, a) \<in> set t \<and> (p, x) \<in> set a)"
proof
  assume "attribute_at t r p = Some x"
  then obtain a where a: "map_of t r = Some a" and x: "map_of a p = Some x"
    by (auto simp: attribute_at_def split: option.splits)
  from a have "(r, a) \<in> set t" by (rule map_of_SomeD)
  moreover from x have "(p, x) \<in> set a" by (rule map_of_SomeD)
  ultimately show "\<exists>a. (r, a) \<in> set t \<and> (p, x) \<in> set a" by blast
next
  assume "\<exists>a. (r, a) \<in> set t \<and> (p, x) \<in> set a"
  then obtain a where a: "(r, a) \<in> set t" and x: "(p, x) \<in> set a" by blast
  from a assms have "map_of t r = Some a" by (simp add: well_formed_map_of)
  moreover from well_formed_attrs[OF assms a] x have "map_of a p = Some x" by simp
  ultimately show "attribute_at t r p = Some x" by (simp add: attribute_at_def)
qed

lemma same_tree_member:
  assumes "same_tree s t" and "(r, a) \<in> set s"
  shows "\<exists>a'. (r, a') \<in> set t \<and> set a' = set a"
proof -
  have "(r, set a) \<in> set (map (\<lambda>(r, a). (r, set a)) s)" using assms(2) by force
  then have "(r, set a) \<in> set (map (\<lambda>(r, a). (r, set a)) t)" using assms(1) by (simp add: same_tree_def)
  then show ?thesis by auto
qed

lemma same_tree_sym: "same_tree s t \<Longrightarrow> same_tree t s"
  by (simp add: same_tree_def)

lemma attribute_at_same_tree_Some:
  assumes "well_formed s" and "well_formed t" and "same_tree s t"
    and "attribute_at s r p = Some x"
  shows "attribute_at t r p = Some x"
proof -
  from assms(4) obtain a where a: "(r, a) \<in> set s" and x: "(p, x) \<in> set a"
    unfolding attribute_at_Some[OF assms(1)] by blast
  from same_tree_member[OF assms(3) a] obtain a' where "(r, a') \<in> set t" and "set a' = set a"
    by blast
  with x have "\<exists>a. (r, a) \<in> set t \<and> (p, x) \<in> set a" by blast
  then show ?thesis unfolding attribute_at_Some[OF assms(2)] .
qed

lemma attribute_at_same_tree:
  assumes "well_formed s" and "well_formed t" and "same_tree s t"
  shows "attribute_at s = attribute_at t"
proof (intro ext)
  fix r p
  show "attribute_at s r p = attribute_at t r p"
  proof (cases "attribute_at s r p")
    case (Some x)
    with attribute_at_same_tree_Some[OF assms] show ?thesis by simp
  next
    case None
    show ?thesis
    proof (cases "attribute_at t r p")
      case (Some y)
      from attribute_at_same_tree_Some[OF assms(2) assms(1) same_tree_sym[OF assms(3)] Some] None
      show ?thesis by simp
    next
      case None
      with \<open>attribute_at s r p = None\<close> show ?thesis by simp
    qed
  qed
qed

lemma paths_of_iff: "(p \<in> set (paths_of a b)) = (map_of a p \<noteq> None \<or> map_of b p \<noteq> None)"
  by (auto simp: paths_of_def map_of_eq_None_iff)

lemma in_compare_resource:
  "(e \<in> set (compare_resource r a b)) = (\<exists>p. e \<in> set (compare_values r p (map_of a p) (map_of b p)))"
proof
  assume "e \<in> set (compare_resource r a b)"
  then show "\<exists>p. e \<in> set (compare_values r p (map_of a p) (map_of b p))"
    by (auto simp: compare_resource_def)
next
  assume "\<exists>p. e \<in> set (compare_values r p (map_of a p) (map_of b p))"
  then obtain p where e: "e \<in> set (compare_values r p (map_of a p) (map_of b p))" by blast
  then have "map_of a p \<noteq> None \<or> map_of b p \<noteq> None"
    by (cases "map_of a p"; cases "map_of b p") auto
  then have "p \<in> set (paths_of a b)" by (simp add: paths_of_iff)
  with e show "e \<in> set (compare_resource r a b)"
    by (auto simp: compare_resource_def)
qed

lemma in_removed_resource:
  "(e \<in> set (removed_resource r a)) =
     (\<exists>p x. (p, x) \<in> set a \<and> e = \<lparr>resource = r, path = p, change = removed, old_value = Some x, new_value = None\<rparr>)"
  by (auto simp: removed_resource_def)

lemma in_added_resource:
  "(e \<in> set (added_resource r b)) =
     (\<exists>p y. (p, y) \<in> set b \<and> e = \<lparr>resource = r, path = p, change = added, old_value = None, new_value = Some y\<rparr>)"
  by (auto simp: added_resource_def)

lemma in_concat_pairs:
  "(e \<in> set (concat (map F xs))) = (\<exists>r a. (r, a) \<in> set xs \<and> e \<in> set (F (r, a)))"
  by auto

lemma in_removed_resources:
  "(e \<in> set (removed_resources s t)) =
     (\<exists>r a. (r, a) \<in> set s \<and> map_of t r = None \<and> e \<in> set (removed_resource r a))"
  unfolding removed_resources_def in_concat_pairs
proof (intro ex_cong1)
  fix r a
  show "((r, a) \<in> set s \<and> e \<in> set (case (r, a) of (r, a) \<Rightarrow> case map_of t r of None \<Rightarrow> removed_resource r a | Some _ \<Rightarrow> [])) =
        ((r, a) \<in> set s \<and> map_of t r = None \<and> e \<in> set (removed_resource r a))"
    by (cases "map_of t r") simp_all
qed

lemma in_added_resources:
  "(e \<in> set (added_resources s t)) =
     (\<exists>r b. (r, b) \<in> set t \<and> map_of s r = None \<and> e \<in> set (added_resource r b))"
  unfolding added_resources_def in_concat_pairs
proof (intro ex_cong1)
  fix r b
  show "((r, b) \<in> set t \<and> e \<in> set (case (r, b) of (r, b) \<Rightarrow> case map_of s r of None \<Rightarrow> added_resource r b | Some _ \<Rightarrow> [])) =
        ((r, b) \<in> set t \<and> map_of s r = None \<and> e \<in> set (added_resource r b))"
    by (cases "map_of s r") simp_all
qed

lemma in_common_resources:
  "(e \<in> set (common_resources s t)) =
     (\<exists>r a b. (r, a) \<in> set s \<and> map_of t r = Some b \<and> e \<in> set (compare_resource r a b))"
  unfolding common_resources_def in_concat_pairs
proof (intro ex_cong1)
  fix r a
  show "((r, a) \<in> set s \<and> e \<in> set (case (r, a) of (r, a) \<Rightarrow> case map_of t r of None \<Rightarrow> [] | Some b \<Rightarrow> compare_resource r a b)) =
        (\<exists>b. (r, a) \<in> set s \<and> map_of t r = Some b \<and> e \<in> set (compare_resource r a b))"
    by (cases "map_of t r") simp_all
qed

lemma in_changes:
  "(e \<in> set (changes s t)) =
     (e \<in> set (removed_resources s t) \<or> e \<in> set (added_resources s t) \<or> e \<in> set (common_resources s t))"
  by (simp add: changes_def)

lemma changes_sound:
  assumes "well_formed s" and "well_formed t" and "e \<in> set (changes s t)"
  shows "\<exists>r p. e \<in> set (compare_values r p (attribute_at s r p) (attribute_at t r p))"
proof -
  from assms(3) consider
      (rem) "e \<in> set (removed_resources s t)"
    | (add) "e \<in> set (added_resources s t)"
    | (com) "e \<in> set (common_resources s t)"
    unfolding in_changes by blast
  then show ?thesis
  proof cases
    case rem
    then obtain r a p x where ra: "(r, a) \<in> set s" and t: "map_of t r = None"
      and px: "(p, x) \<in> set a"
      and e: "e = \<lparr>resource = r, path = p, change = removed, old_value = Some x, new_value = None\<rparr>"
      unfolding in_removed_resources in_removed_resource by blast
    have "attribute_at s r p = Some x"
      unfolding attribute_at_Some[OF assms(1)] using ra px by blast
    moreover have "attribute_at t r p = None" using t by (simp add: attribute_at_def)
    ultimately have "e \<in> set (compare_values r p (attribute_at s r p) (attribute_at t r p))"
      using e by simp
    then show ?thesis by blast
  next
    case add
    then obtain r b p y where rb: "(r, b) \<in> set t" and s: "map_of s r = None"
      and py: "(p, y) \<in> set b"
      and e: "e = \<lparr>resource = r, path = p, change = added, old_value = None, new_value = Some y\<rparr>"
      unfolding in_added_resources in_added_resource by blast
    have "attribute_at t r p = Some y"
      unfolding attribute_at_Some[OF assms(2)] using rb py by blast
    moreover have "attribute_at s r p = None" using s by (simp add: attribute_at_def)
    ultimately have "e \<in> set (compare_values r p (attribute_at s r p) (attribute_at t r p))"
      using e by simp
    then show ?thesis by blast
  next
    case com
    then obtain r a b p where ra: "(r, a) \<in> set s" and t: "map_of t r = Some b"
      and e: "e \<in> set (compare_values r p (map_of a p) (map_of b p))"
      unfolding in_common_resources in_compare_resource by blast
    from ra assms(1) have "map_of s r = Some a" by (simp add: well_formed_map_of)
    with t e have "e \<in> set (compare_values r p (attribute_at s r p) (attribute_at t r p))"
      by (simp add: attribute_at_def)
    then show ?thesis by blast
  qed
qed

lemma changes_complete:
  assumes "well_formed s" and "well_formed t"
    and e: "e \<in> set (compare_values r p (attribute_at s r p) (attribute_at t r p))"
  shows "e \<in> set (changes s t)"
proof (cases "map_of s r")
  case None
  note sN = None
  show ?thesis
  proof (cases "map_of t r")
    case None
    with sN e show ?thesis by (simp add: attribute_at_def)
  next
    case (Some b)
    with sN e obtain y where y: "map_of b p = Some y"
      and e': "e = \<lparr>resource = r, path = p, change = added, old_value = None, new_value = Some y\<rparr>"
      by (cases "map_of b p") (auto simp: attribute_at_def)
    from Some have "(r, b) \<in> set t" by (rule map_of_SomeD)
    moreover from y have "(p, y) \<in> set b" by (rule map_of_SomeD)
    ultimately have "e \<in> set (added_resources s t)"
      unfolding in_added_resources in_added_resource using sN e' by blast
    then show ?thesis by (simp add: in_changes)
  qed
next
  case (Some a)
  note sS = Some
  then have ra: "(r, a) \<in> set s" by (rule map_of_SomeD)
  show ?thesis
  proof (cases "map_of t r")
    case None
    with sS e obtain x where x: "map_of a p = Some x"
      and e': "e = \<lparr>resource = r, path = p, change = removed, old_value = Some x, new_value = None\<rparr>"
      by (cases "map_of a p") (auto simp: attribute_at_def)
    from x have "(p, x) \<in> set a" by (rule map_of_SomeD)
    with ra None e' have "e \<in> set (removed_resources s t)"
      unfolding in_removed_resources in_removed_resource by blast
    then show ?thesis by (simp add: in_changes)
  next
    case (Some b)
    with sS e have "e \<in> set (compare_values r p (map_of a p) (map_of b p))"
      by (simp add: attribute_at_def)
    with ra Some have "e \<in> set (common_resources s t)"
      unfolding in_common_resources in_compare_resource by blast
    then show ?thesis by (simp add: in_changes)
  qed
qed

lemma changes_iff:
  assumes "well_formed s" and "well_formed t"
  shows "(e \<in> set (changes s t)) =
           (\<exists>r p. e \<in> set (compare_values r p (attribute_at s r p) (attribute_at t r p)))"
  using changes_sound[OF assms] changes_complete[OF assms] by blast


lemma compare_values_key:
  "e \<in> set (compare_values r p x y) \<Longrightarrow> entry_key e = (r, p)"
  by (cases x; cases y) (auto simp: entry_key_def split: if_splits)

lemma compare_values_unique:
  "e \<in> set (compare_values r p x y) \<Longrightarrow> e' \<in> set (compare_values r p x y) \<Longrightarrow> e = e'"
  by (cases x; cases y) (auto split: if_splits)

lemma compare_values_distinct: "distinct (map k (compare_values r p x y))"
  by (cases x; cases y) auto

lemma distinct_map_concat:
  assumes "distinct (map g xs)"
    and "\<And>x. x \<in> set xs \<Longrightarrow> distinct (map k (F x))"
    and "\<And>x e. x \<in> set xs \<Longrightarrow> e \<in> set (F x) \<Longrightarrow> h (k e) = g x"
  shows "distinct (map k (concat (map F xs)))"
  using assms
proof (induction xs)
  case Nil
  then show ?case by simp
next
  case (Cons x xs)
  have rest: "distinct (map k (concat (map F xs)))"
    using Cons.IH Cons.prems by simp
  have here: "distinct (map k (F x))" using Cons.prems(2) by simp
  have "k ` set (F x) \<inter> k ` set (concat (map F xs)) = {}"
  proof (rule ccontr)
    assume "k ` set (F x) \<inter> k ` set (concat (map F xs)) \<noteq> {}"
    then obtain e e' where e: "e \<in> set (F x)" and e': "e' \<in> set (concat (map F xs))" and eq: "k e = k e'"
      by auto
    from e' obtain x' where x': "x' \<in> set xs" and e'': "e' \<in> set (F x')" by auto
    have "h (k e) = g x" using Cons.prems(3)[of x e] e by simp
    moreover have "h (k e') = g x'" using Cons.prems(3)[of x' e'] x' e'' by simp
    ultimately have "g x = g x'" using eq by simp
    moreover have "g x \<notin> g ` set xs" using Cons.prems(1) by simp
    ultimately show False using x' by auto
  qed
  with rest here show ?case by simp
qed

lemma removed_resource_keys: "map entry_key (removed_resource r a) = map (Pair r) (map fst a)"
  by (induction a) (auto simp: removed_resource_def entry_key_def)

lemma added_resource_keys: "map entry_key (added_resource r b) = map (Pair r) (map fst b)"
  by (induction b) (auto simp: added_resource_def entry_key_def)

lemma distinct_Pair: "distinct ps \<Longrightarrow> distinct (map (Pair r) ps)"
  by (simp add: distinct_map inj_on_def)

lemma removed_resource_distinct:
  "distinct (map fst a) \<Longrightarrow> distinct (map entry_key (removed_resource r a))"
  unfolding removed_resource_keys by (rule distinct_Pair)

lemma added_resource_distinct:
  "distinct (map fst b) \<Longrightarrow> distinct (map entry_key (added_resource r b))"
  unfolding added_resource_keys by (rule distinct_Pair)

lemma paths_of_distinct:
  "distinct (map fst a) \<Longrightarrow> distinct (map fst b) \<Longrightarrow> distinct (paths_of a b)"
  by (auto simp: paths_of_def map_of_eq_None_iff)

lemma compare_resource_distinct:
  assumes "distinct (map fst a)" and "distinct (map fst b)"
  shows "distinct (map entry_key (compare_resource r a b))"
  unfolding compare_resource_def
proof (rule distinct_map_concat[where g = "\<lambda>p. p" and h = snd])
  show "distinct (map (\<lambda>p. p) (paths_of a b))" using paths_of_distinct[OF assms] by simp
next
  fix p show "distinct (map entry_key (compare_values r p (map_of a p) (map_of b p)))"
    by (rule compare_values_distinct)
next
  fix p e assume "e \<in> set (compare_values r p (map_of a p) (map_of b p))"
  then show "snd (entry_key e) = p" by (simp add: compare_values_key)
qed

lemma compare_resource_key:
  "e \<in> set (compare_resource r a b) \<Longrightarrow> fst (entry_key e) = r"
  unfolding in_compare_resource by (auto simp: compare_values_key)

lemma removed_resource_key: "e \<in> set (removed_resource r a) \<Longrightarrow> fst (entry_key e) = r"
  unfolding in_removed_resource by (auto simp: entry_key_def)

lemma added_resource_key: "e \<in> set (added_resource r a) \<Longrightarrow> fst (entry_key e) = r"
  unfolding in_added_resource by (auto simp: entry_key_def)

lemma removed_resources_distinct:
  assumes "well_formed s"
  shows "distinct (map entry_key (removed_resources s t))"
  unfolding removed_resources_def
proof (rule distinct_map_concat[where g = fst and h = fst])
  show "distinct (map fst s)" using assms by (simp add: well_formed_def)
next
  fix x assume x: "x \<in> set s"
  obtain r a where xa: "x = (r, a)" by (cases x)
  with x assms have "distinct (map fst a)" by (simp add: well_formed_attrs)
  then show "distinct (map entry_key (case x of (r, a) \<Rightarrow> case map_of t r of None \<Rightarrow> removed_resource r a | Some _ \<Rightarrow> []))"
    using xa by (cases "map_of t r") (simp_all add: removed_resource_distinct)
next
  fix x e assume "x \<in> set s"
    and e: "e \<in> set (case x of (r, a) \<Rightarrow> case map_of t r of None \<Rightarrow> removed_resource r a | Some _ \<Rightarrow> [])"
  obtain r a where xa: "x = (r, a)" by (cases x)
  with e show "fst (entry_key e) = fst x"
    by (cases "map_of t r") (simp_all add: removed_resource_key)
qed

lemma added_resources_distinct:
  assumes "well_formed t"
  shows "distinct (map entry_key (added_resources s t))"
  unfolding added_resources_def
proof (rule distinct_map_concat[where g = fst and h = fst])
  show "distinct (map fst t)" using assms by (simp add: well_formed_def)
next
  fix x assume x: "x \<in> set t"
  obtain r b where xb: "x = (r, b)" by (cases x)
  with x assms have "distinct (map fst b)" by (simp add: well_formed_attrs)
  then show "distinct (map entry_key (case x of (r, b) \<Rightarrow> case map_of s r of None \<Rightarrow> added_resource r b | Some _ \<Rightarrow> []))"
    using xb by (cases "map_of s r") (simp_all add: added_resource_distinct)
next
  fix x e assume "x \<in> set t"
    and e: "e \<in> set (case x of (r, b) \<Rightarrow> case map_of s r of None \<Rightarrow> added_resource r b | Some _ \<Rightarrow> [])"
  obtain r b where xb: "x = (r, b)" by (cases x)
  with e show "fst (entry_key e) = fst x"
    by (cases "map_of s r") (simp_all add: added_resource_key)
qed

lemma common_resources_distinct:
  assumes "well_formed s" and "well_formed t"
  shows "distinct (map entry_key (common_resources s t))"
  unfolding common_resources_def
proof (rule distinct_map_concat[where g = fst and h = fst])
  show "distinct (map fst s)" using assms by (simp add: well_formed_def)
next
  fix x assume x: "x \<in> set s"
  obtain r a where xa: "x = (r, a)" by (cases x)
  with x assms have da: "distinct (map fst a)" by (simp add: well_formed_attrs)
  show "distinct (map entry_key (case x of (r, a) \<Rightarrow> case map_of t r of None \<Rightarrow> [] | Some b \<Rightarrow> compare_resource r a b))"
  proof (cases "map_of t r")
    case None
    with xa show ?thesis by simp
  next
    case (Some b)
    then have "(r, b) \<in> set t" by (rule map_of_SomeD)
    with assms(2) have "distinct (map fst b)" by (simp add: well_formed_attrs)
    with da Some xa show ?thesis by (simp add: compare_resource_distinct)
  qed
next
  fix x e assume "x \<in> set s"
    and e: "e \<in> set (case x of (r, a) \<Rightarrow> case map_of t r of None \<Rightarrow> [] | Some b \<Rightarrow> compare_resource r a b)"
  obtain r a where xa: "x = (r, a)" by (cases x)
  with e show "fst (entry_key e) = fst x"
    by (cases "map_of t r") (simp_all add: compare_resource_key)
qed

lemma changes_distinct:
  assumes "well_formed s" and "well_formed t"
  shows "distinct (map entry_key (changes s t))"
proof -
  have rk: "\<And>e. e \<in> set (removed_resources s t) \<Longrightarrow> map_of s (fst (entry_key e)) \<noteq> None \<and> map_of t (fst (entry_key e)) = None"
  proof -
    fix e assume "e \<in> set (removed_resources s t)"
    then obtain r a where ra: "(r, a) \<in> set s" and t: "map_of t r = None" and e: "e \<in> set (removed_resource r a)"
      unfolding in_removed_resources by blast
    from ra assms(1) have "map_of s r = Some a" by (simp add: well_formed_map_of)
    with t removed_resource_key[OF e] show "map_of s (fst (entry_key e)) \<noteq> None \<and> map_of t (fst (entry_key e)) = None"
      by simp
  qed
  have ak: "\<And>e. e \<in> set (added_resources s t) \<Longrightarrow> map_of s (fst (entry_key e)) = None"
  proof -
    fix e assume "e \<in> set (added_resources s t)"
    then obtain r b where s: "map_of s r = None" and e: "e \<in> set (added_resource r b)"
      unfolding in_added_resources by blast
    with added_resource_key[OF e] show "map_of s (fst (entry_key e)) = None" by simp
  qed
  have ck: "\<And>e. e \<in> set (common_resources s t) \<Longrightarrow> map_of s (fst (entry_key e)) \<noteq> None \<and> map_of t (fst (entry_key e)) \<noteq> None"
  proof -
    fix e assume "e \<in> set (common_resources s t)"
    then obtain r a b where ra: "(r, a) \<in> set s" and t: "map_of t r = Some b" and e: "e \<in> set (compare_resource r a b)"
      unfolding in_common_resources by blast
    from ra assms(1) have "map_of s r = Some a" by (simp add: well_formed_map_of)
    with t compare_resource_key[OF e] show "map_of s (fst (entry_key e)) \<noteq> None \<and> map_of t (fst (entry_key e)) \<noteq> None"
      by simp
  qed
  have 1: "entry_key ` set (removed_resources s t) \<inter> entry_key ` set (added_resources s t) = {}"
    using rk ak by fastforce
  have 2: "entry_key ` set (removed_resources s t) \<inter> entry_key ` set (common_resources s t) = {}"
    using rk ck by fastforce
  have 3: "entry_key ` set (added_resources s t) \<inter> entry_key ` set (common_resources s t) = {}"
    using ak ck by fastforce
  show ?thesis
    unfolding changes_def
    using removed_resources_distinct[OF assms(1), of t] added_resources_distinct[OF assms(2), of s]
      common_resources_distinct[OF assms] 1 2 3
    by (simp add: Int_Un_distrib)
qed

lemma sort_key_unique:
  assumes "distinct (map f xs)" and "distinct (map f ys)" and "set xs = set ys"
  shows "sort_key f xs = sort_key f ys"
proof -
  have dk: "\<And>zs. distinct (map f zs) \<Longrightarrow> distinct (map f (sort_key f zs))"
  proof -
    fix zs :: "'b list"
    assume d: "distinct (map f zs)"
    have "card (set (map f (sort_key f zs))) = card (set (map f zs))" by simp
    also have "\<dots> = length (map f zs)" using d by (rule distinct_card)
    also have "\<dots> = length (map f (sort_key f zs))" by simp
    finally show "distinct (map f (sort_key f zs))" by (rule card_distinct)
  qed
  have "map f (sort_key f xs) = map f (sort_key f ys)"
  proof (rule sorted_distinct_set_unique)
    show "sorted (map f (sort_key f xs))" by (rule sorted_sort_key)
    show "sorted (map f (sort_key f ys))" by (rule sorted_sort_key)
    show "distinct (map f (sort_key f xs))" using assms(1) by (rule dk)
    show "distinct (map f (sort_key f ys))" using assms(2) by (rule dk)
    show "set (map f (sort_key f xs)) = set (map f (sort_key f ys))" using assms(3) by simp
  qed
  moreover have "inj_on f (set (sort_key f xs) \<union> set (sort_key f ys))"
    using assms(1,3) by (simp add: distinct_map)
  ultimately show ?thesis by (simp add: inj_on_map_eq_map)
qed

lemma changes_same_tree:
  assumes "well_formed s" and "well_formed s'" and "same_tree s s'"
    and "well_formed t" and "well_formed t'" and "same_tree t t'"
  shows "set (changes s t) = set (changes s' t')"
proof -
  have "attribute_at s = attribute_at s'" using assms(1,2,3) by (rule attribute_at_same_tree)
  moreover have "attribute_at t = attribute_at t'" using assms(4,5,6) by (rule attribute_at_same_tree)
  ultimately have "\<And>e. (e \<in> set (changes s t)) = (e \<in> set (changes s' t'))"
    unfolding changes_iff[OF assms(1) assms(4)] changes_iff[OF assms(2) assms(5)] by simp
  then show ?thesis by blast
qed


lemma Compare_prod_vpc:
  "Compare prod_vpc_v1 prod_vpc_v2 =
     Inr [\<lparr>resource = subnet_a, path = ''cidr_block'', change = added, old_value = None,
           new_value = Some ''10.1.1.0/24''\<rparr>,
          \<lparr>resource = vpc_main, path = ''cidr_block'', change = modified,
           old_value = Some ''10.0.0.0/16'', new_value = Some ''10.1.0.0/16''\<rparr>]"
proof -
  have "well_formed prod_vpc_v1" by (simp add: well_formed_def prod_vpc_v1_def)
  moreover have "well_formed prod_vpc_v2"
    by (simp add: well_formed_def prod_vpc_v2_def vpc_main_def subnet_a_def)
  moreover have "sort_key entry_key (changes prod_vpc_v1 prod_vpc_v2) =
     [\<lparr>resource = subnet_a, path = ''cidr_block'', change = added, old_value = None,
       new_value = Some ''10.1.1.0/24''\<rparr>,
      \<lparr>resource = vpc_main, path = ''cidr_block'', change = modified,
       old_value = Some ''10.0.0.0/16'', new_value = Some ''10.1.0.0/16''\<rparr>]"
    by (simp add: changes_def removed_resources_def added_resources_def common_resources_def
        compare_resource_def paths_of_def added_resource_def removed_resource_def
        prod_vpc_v1_def prod_vpc_v2_def vpc_main_def subnet_a_def entry_key_def)
  ultimately show ?thesis by (simp add: Compare_def)
qed

section \<open>The claims\<close>

subsection \<open>Lock aggregation\<close>

text \<open>
  Claim C1, as amended. The claim says that when one provider fails the output still
  holds the locks collected from the providers that succeeded before it. The handler
  does not do that: \<open>GetLocks\<close> returns at the first provider that fails. If every provider
  before the failing one succeeds, the response is the JSON error object alone, with the
  message \<^verbatim>\<open>Failed to get locks on a provider\<close> and the text of that provider's own error;
  the locks collected so far are not written, and the providers after it play no part.
\<close>

theorem GetLocks_provider_error_aborts:
  assumes "\<forall>p \<in> set pre. \<not> isl p"
  shows "GetLocks js w (pre @ Inl err # rest)
           = write_or_log w (error_payload js ''Failed to get locks on a provider'' err)"
  using collect_locks_fail[OF assms] by (simp add: GetLocks_def JSONError_eq)

theorem GetLocks_provider_error_aborts_witness:
  "\<not> isl (Inr [''prod/vpc'' \<mapsto> lockA] :: Provider) \<and>
   body (GetLocks example_json w0
           ([Inr [''prod/vpc'' \<mapsto> lockA]] @ Inl (Err OtherError ''timeout'') # [Inr [''prod/db'' \<mapsto> lockB]]))
     = ''{\"details\":\"timeout\",\"error\":\"Failed to get locks on a provider\"}''"
  using GetLocks_provider_error_aborts[of "[Inr [''prod/vpc'' \<mapsto> lockA]]" example_json w0
      "Err OtherError ''timeout''" "[Inr [''prod/db'' \<mapsto> lockB]]"]
  by (simp add: error_payload_def example_json_def plain_quote_def w0_def write_or_log_def
      WriteString_def)

text \<open>
  The claim as stated fails: a provider reports a lock for \<^verbatim>\<open>prod/vpc\<close> and the next one
  fails. The response is the error object, the same response as when the first provider
  is absent, whereas the first provider alone gives a response with its lock.
\<close>

theorem GetLocks_partial_results_counterexample:
  "body (GetLocks example_json w0 [Inr [''prod/vpc'' \<mapsto> lockA], Inl (Err OtherError ''timeout'')])
     = ''{\"details\":\"timeout\",\"error\":\"Failed to get locks on a provider\"}'' \<and>
   GetLocks example_json w0 [Inr [''prod/vpc'' \<mapsto> lockA], Inl (Err OtherError ''timeout'')]
     = GetLocks example_json w0 [Inl (Err OtherError ''timeout'')] \<and>
   body (GetLocks example_json w0 [Inr [''prod/vpc'' \<mapsto> lockA]]) = ''{\"prod/vpc\":\"alice\"}''"
  by (simp add: GetLocks_def JSONError_eq error_payload_def example_json_def plain_quote_def
      w0_def write_or_log_def WriteString_def marshal_map_def lockA_def)

text \<open>
  Claim C2. When every provider succeeds and two of them, the provider at \<open>i\<close> and the later
  one at \<open>j\<close>, report a lock for the same key \<open>k\<close> with different holders, \<open>j\<close> being the last
  provider that reports \<open>k\<close>, then the aggregated map holds for \<open>k\<close> the lock of the later
  provider and not the lock of the earlier one, and that map is what the handler
  marshals and writes.
\<close>

theorem GetLocks_last_seen_overwrite:
  assumes "collect_locks Map.empty sps = Inr allLocks"
    and "i < j" and "j < length sps"
    and "sps ! i = Inr li" and "li k = Some vi"
    and "sps ! j = Inr lj" and "lj k = Some vj"
    and "holder vi \<noteq> holder vj"
    and "\<forall>n. j < n \<and> n < length sps \<longrightarrow> (\<forall>ln. sps ! n = Inr ln \<longrightarrow> ln k = None)"
  shows "allLocks k = Some vj \<and> allLocks k \<noteq> Some vi \<and>
         GetLocks js w sps =
           (case marshal_map (quote js) (marshal js) allLocks of
              Inl err \<Rightarrow> JSONError js w ''Failed to marshal locks'' err
            | Inr j \<Rightarrow> write_or_log w j)"
proof -
  have "allLocks k = Some vj"
    using collect_locks_last[OF assms(1) assms(3) assms(6) assms(7) assms(9)] .
  moreover have "vi \<noteq> vj" using assms(8) by auto
  ultimately show ?thesis using assms(1) by (simp add: GetLocks_def)
qed

theorem GetLocks_last_seen_overwrite_witness:
  "collect_locks Map.empty [Inr [''prod/vpc'' \<mapsto> lockA], Inr [''prod/vpc'' \<mapsto> lockB]]
     = Inr [''prod/vpc'' \<mapsto> lockB] \<and>
   (0::nat) < 1 \<and> 1 < length [Inr [''prod/vpc'' \<mapsto> lockA], Inr [''prod/vpc'' \<mapsto> lockB] :: Provider] \<and>
   holder lockA \<noteq> holder lockB \<and>
   [''prod/vpc'' \<mapsto> lockB] ''prod/vpc'' = Some lockB \<and>
   [''prod/vpc'' \<mapsto> lockB] ''prod/vpc'' \<noteq> Some lockA \<and>
   body (GetLocks example_json w0 [Inr [''prod/vpc'' \<mapsto> lockA], Inr [''prod/vpc'' \<mapsto> lockB]])
     = ''{\"prod/vpc\":\"bob\"}''"
proof -
  let ?sps = "[Inr [''prod/vpc'' \<mapsto> lockA], Inr [''prod/vpc'' \<mapsto> lockB]] :: Provider list"
  have c: "collect_locks Map.empty ?sps = Inr [''prod/vpc'' \<mapsto> lockB]" by simp
  have h: "holder lockA \<noteq> holder lockB" by (simp add: lockA_def lockB_def)
  have n: "\<forall>n. 1 < n \<and> n < length ?sps \<longrightarrow> (\<forall>ln. ?sps ! n = Inr ln \<longrightarrow> ln ''prod/vpc'' = None)"
    by simp
  have m: "marshal_map (quote example_json) (marshal example_json) [''prod/vpc'' \<mapsto> lockB]
             = Inr ''{\"prod/vpc\":\"bob\"}''"
    by (simp add: marshal_map_def example_json_def plain_quote_def lockB_def)
  from GetLocks_last_seen_overwrite[OF c _ _ _ _ _ _ h n, where i = 0
      and li = "[''prod/vpc'' \<mapsto> lockA]" and lj = "[''prod/vpc'' \<mapsto> lockB]"
      and js = example_json and w = w0]
  show ?thesis using c h m by (simp add: write_or_log_def WriteString_def w0_def)
qed

text \<open>
  Claim C6. When every provider succeeds and two of them, at \<open>i\<close> and at \<open>j\<close>, report a lock
  for the same key \<open>k\<close> with the same holder and the same timestamp, the handler marshals
  and writes the aggregated map, and that map has one entry for \<open>k\<close>, not two: \<open>k\<close> has a
  lock in the map and occurs once among the sorted keys of the map; when every lock
  marshals, what the handler hands to the writer is the object with one member for each
  of these keys. When no provider after \<open>j\<close> reports \<open>k\<close>, the entry is the report of \<open>j\<close>,
  with the holder and the timestamp that both providers reported.
\<close>

theorem GetLocks_duplicate_one_entry:
  assumes "collect_locks Map.empty sps = Inr allLocks"
    and "\<forall>l. Inr l \<in> set sps \<longrightarrow> finite (dom l)"
    and "i < j" and "j < length sps"
    and "sps ! i = Inr li" and "li k = Some vi"
    and "sps ! j = Inr lj" and "lj k = Some vj"
    and "holder vi = holder vj" and "timestamp vi = timestamp vj"
  shows "GetLocks js w sps =
           (case marshal_map (quote js) (marshal js) allLocks of
              Inl err \<Rightarrow> JSONError js w ''Failed to marshal locks'' err
            | Inr j \<Rightarrow> write_or_log w j) \<and>
         (\<exists>v. allLocks k = Some v) \<and>
         count_list (sorted_list_of_set (dom allLocks)) k = 1 \<and>
         (\<forall>f. (\<forall>k' v. allLocks k' = Some v \<longrightarrow> marshal js v = Inr (f k')) \<longrightarrow>
              GetLocks js w sps =
                write_or_log w (object_of (quote js) f (sorted_list_of_set (dom allLocks)))) \<and>
         ((\<forall>n. j < n \<and> n < length sps \<longrightarrow> (\<forall>ln. sps ! n = Inr ln \<longrightarrow> ln k = None)) \<longrightarrow>
            allLocks k = Some vj \<and> holder vj = holder vi \<and> timestamp vj = timestamp vi)"
proof -
  have d: "dom allLocks = (\<Union>p \<in> set sps. case p of Inl _ \<Rightarrow> {} | Inr l \<Rightarrow> dom l)"
    using collect_locks_dom[OF assms(1)] by simp
  have "Inr lj \<in> set sps" using assms(4,7) by (metis nth_mem)
  then have kd: "k \<in> dom allLocks" using assms(8) unfolding d by force
  have fin: "finite (dom allLocks)" unfolding d using assms(2) by (auto split: sum.splits)
  have "distinct (sorted_list_of_set (dom allLocks))" by simp
  moreover have "k \<in> set (sorted_list_of_set (dom allLocks))" using kd fin by simp
  ultimately have one: "count_list (sorted_list_of_set (dom allLocks)) k = 1"
    by (rule count_list_distinct)
  have handler: "GetLocks js w sps =
           (case marshal_map (quote js) (marshal js) allLocks of
              Inl err \<Rightarrow> JSONError js w ''Failed to marshal locks'' err
            | Inr j \<Rightarrow> write_or_log w j)"
    using assms(1) by (simp add: GetLocks_def)
  have written: "\<forall>f. (\<forall>k' v. allLocks k' = Some v \<longrightarrow> marshal js v = Inr (f k')) \<longrightarrow>
              GetLocks js w sps =
                write_or_log w (object_of (quote js) f (sorted_list_of_set (dom allLocks)))"
  proof (intro allI impI)
    fix f assume "\<forall>k' v. allLocks k' = Some v \<longrightarrow> marshal js v = Inr (f k')"
    then have "marshal_map (quote js) (marshal js) allLocks
                 = Inr (object_of (quote js) f (sorted_list_of_set (dom allLocks)))"
      by (intro marshal_map_object) simp
    with handler show "GetLocks js w sps =
                write_or_log w (object_of (quote js) f (sorted_list_of_set (dom allLocks)))"
      by simp
  qed
  have last: "(\<forall>n. j < n \<and> n < length sps \<longrightarrow> (\<forall>ln. sps ! n = Inr ln \<longrightarrow> ln k = None)) \<longrightarrow>
            allLocks k = Some vj \<and> holder vj = holder vi \<and> timestamp vj = timestamp vi"
  proof
    assume n: "\<forall>n. j < n \<and> n < length sps \<longrightarrow> (\<forall>ln. sps ! n = Inr ln \<longrightarrow> ln k = None)"
    have "allLocks k = Some vj"
      using collect_locks_last[OF assms(1) assms(4) assms(7) assms(8) n] .
    with assms(9,10) show "allLocks k = Some vj \<and> holder vj = holder vi \<and> timestamp vj = timestamp vi"
      by simp
  qed
  from handler kd one written last show ?thesis by blast
qed

theorem GetLocks_duplicate_one_entry_witness:
  "collect_locks Map.empty lock_providers = Inr [''prod/vpc'' \<mapsto> lockA', ''prod/db'' \<mapsto> lockB] \<and>
   finite (dom [''prod/vpc'' \<mapsto> lockA]) \<and> finite (dom [''prod/vpc'' \<mapsto> lockA']) \<and>
   finite (dom [''prod/db'' \<mapsto> lockB]) \<and>
   (0::nat) < 1 \<and> 1 < length lock_providers \<and>
   lock_providers ! 0 = Inr [''prod/vpc'' \<mapsto> lockA] \<and>
   lock_providers ! 1 = Inr [''prod/vpc'' \<mapsto> lockA'] \<and>
   holder lockA = holder lockA' \<and> timestamp lockA = timestamp lockA' \<and>
   sorted_list_of_set (dom [''prod/vpc'' \<mapsto> lockA', ''prod/db'' \<mapsto> lockB]) = [''prod/db'', ''prod/vpc''] \<and>
   count_list [''prod/db'', ''prod/vpc''] ''prod/vpc'' = 1 \<and>
   [''prod/vpc'' \<mapsto> lockA', ''prod/db'' \<mapsto> lockB] ''prod/vpc'' = Some lockA' \<and>
   GetLocks example_json w0 lock_providers =
     \<lparr>body = ''{\"prod/db\":\"bob\",\"prod/vpc\":\"alice\"}'', werr = None, logged = [], calls = []\<rparr>"
proof -
  let ?m = "[''prod/vpc'' \<mapsto> lockA', ''prod/db'' \<mapsto> lockB]"
  let ?f = "\<lambda>k. if k = ''prod/db'' then ''\"bob\"'' else ''\"alice\"''"
  have c: "collect_locks Map.empty lock_providers = Inr ?m"
    by (simp add: lock_providers_def)
  have f: "\<forall>l. Inr l \<in> set lock_providers \<longrightarrow> finite (dom l)"
    by (auto simp: lock_providers_def)
  have h: "holder lockA = holder lockA'" by (simp add: lockA_def lockA'_def)
  have t: "timestamp lockA = timestamp lockA'" by (simp add: lockA_def lockA'_def)
  have p0: "lock_providers ! 0 = Inr [''prod/vpc'' \<mapsto> lockA]" by (simp add: lock_providers_def)
  have p1: "lock_providers ! 1 = Inr [''prod/vpc'' \<mapsto> lockA']" by (simp add: lock_providers_def)
  have len: "1 < length lock_providers" by (simp add: lock_providers_def)
  have ks: "sorted_list_of_set (dom ?m) = [''prod/db'', ''prod/vpc'']" by simp
  have mv: "\<forall>k' v. ?m k' = Some v \<longrightarrow> marshal example_json v = Inr (?f k')"
    by (simp add: example_json_def plain_quote_def lockA'_def lockB_def)
  have lastk: "\<forall>n. 1 < n \<and> n < length lock_providers \<longrightarrow>
                 (\<forall>ln. lock_providers ! n = Inr ln \<longrightarrow> ln ''prod/vpc'' = None)"
  proof (intro allI impI)
    fix n ln assume "1 < n \<and> n < length lock_providers" and ln: "lock_providers ! n = Inr ln"
    then have "n = 2" by (simp add: lock_providers_def)
    with ln show "ln ''prod/vpc'' = None" by (auto simp: lock_providers_def)
  qed
  have o: "object_of (quote example_json) ?f [''prod/db'', ''prod/vpc'']
             = ''{\"prod/db\":\"bob\",\"prod/vpc\":\"alice\"}''"
    by (simp add: object_of_def example_json_def plain_quote_def)
  have i0: "(0::nat) < 1" by simp
  have a0: "[''prod/vpc'' \<mapsto> lockA] ''prod/vpc'' = Some lockA" by simp
  have a1: "[''prod/vpc'' \<mapsto> lockA'] ''prod/vpc'' = Some lockA'" by simp
  note T = GetLocks_duplicate_one_entry[OF c f i0 len p0 a0 p1 a1 h t, of example_json w0]
  have one: "count_list (sorted_list_of_set (dom ?m)) ''prod/vpc'' = 1"
    using T by blast
  have w: "\<forall>f. (\<forall>k' v. ?m k' = Some v \<longrightarrow> marshal example_json v = Inr (f k')) \<longrightarrow>
             GetLocks example_json w0 lock_providers =
               write_or_log w0 (object_of (quote example_json) f (sorted_list_of_set (dom ?m)))"
    using T by blast
  have g: "GetLocks example_json w0 lock_providers =
             write_or_log w0 (object_of (quote example_json) ?f (sorted_list_of_set (dom ?m)))"
    using w[THEN spec, of ?f] mv by blast
  have e: "?m ''prod/vpc'' = Some lockA'"
    using T lastk by blast
  have b: "GetLocks example_json w0 lock_providers =
     \<lparr>body = ''{\"prod/db\":\"bob\",\"prod/vpc\":\"alice\"}'', werr = None, logged = [], calls = []\<rparr>"
    unfolding g ks o by (simp add: w0_def write_or_log_def WriteString_def)
  have cnt: "count_list [''prod/db'', ''prod/vpc''] ''prod/vpc'' = 1"
    using one unfolding ks .
  have fins: "finite (dom [''prod/vpc'' \<mapsto> lockA]) \<and> finite (dom [''prod/vpc'' \<mapsto> lockA']) \<and>
              finite (dom [''prod/db'' \<mapsto> lockB])" by simp
  from c fins i0 len p0 p1 h t ks cnt e b show ?thesis by blast
qed

text \<open>
  Claim C9. For the empty list of providers the loop collects the empty map, the handler
  takes no error branch, and what it hands to the writer is the JSON object
  \<^verbatim>\<open>{}\<close>; with a writer that works the response grows by exactly these two bytes and
  nothing is logged.
\<close>

theorem GetLocks_empty_providers:
  "collect_locks Map.empty [] = Inr Map.empty \<and>
   GetLocks js w [] = write_or_log w ''{}'' \<and>
   body (GetLocks js (w\<lparr>werr := None\<rparr>) []) = body w @ ''{}'' \<and>
   logged (GetLocks js (w\<lparr>werr := None\<rparr>) []) = logged w"
  by (simp add: GetLocks_def marshal_map_empty write_or_log_def WriteString_def)

theorem GetLocks_empty_providers_witness:
  "GetLocks example_json w0 [] = \<lparr>body = ''{}'', werr = None, logged = [], calls = []\<rparr>"
  using GetLocks_empty_providers[of example_json w0]
  by (simp add: w0_def write_or_log_def WriteString_def)

subsection \<open>GetState\<close>

text \<open>
  Claim C3. For a request whose \<^verbatim>\<open>versionid\<close> parameter is empty, \<open>GetState\<close> first calls
  \<open>DefaultVersion\<close> of the database for the lineage of the request; when that call returns
  a version identifier, the only other call is \<open>GetState\<close> of the database for the same
  lineage and that identifier, and the response (the state marshals, the writer works)
  is the marshalled state loaded under it.
\<close>

theorem GetState_default_version:
  assumes "Get (query r) ''versionid'' = []"
  shows "calls (GetState js w r d) =
           calls w @ (case db_DefaultVersion d (index (vars r) ''lineage'') of
                        Inl err \<Rightarrow> [DefaultVersionCall (index (vars r) ''lineage'')]
                      | Inr v \<Rightarrow> [DefaultVersionCall (index (vars r) ''lineage''),
                                  GetStateCall (index (vars r) ''lineage'') v]) \<and>
         (\<forall>v j. db_DefaultVersion d (index (vars r) ''lineage'') = Inr v \<and>
                 marshal js (db_GetState d (index (vars r) ''lineage'') v) = Inr j \<and> werr w = None
                 \<longrightarrow> body (GetState js w r d) = body w @ j)"
  unfolding GetState_empty_versionid[OF assms]
  by (auto simp: calls_JSONError calls_write_or_log body_write_or_log split: sum.splits)

theorem GetState_default_version_witness:
  "Get (query (request ''prod/vpc'' [])) ''versionid'' = [] \<and>
   db_DefaultVersion (database_of prod_vpc_registry []) ''prod/vpc'' = Inr ''v2'' \<and>
   calls (GetState string_json w0 (request ''prod/vpc'' []) (database_of prod_vpc_registry []))
     = [DefaultVersionCall ''prod/vpc'', GetStateCall ''prod/vpc'' ''v2''] \<and>
   body (GetState string_json w0 (request ''prod/vpc'' []) (database_of prod_vpc_registry []))
     = ''\"snapshot-2\"''"
proof -
  have q: "Get (query (request ''prod/vpc'' [])) ''versionid'' = []"
    by (simp add: request_def Get_def)
  have l: "index (vars (request ''prod/vpc'' [])) ''lineage'' = ''prod/vpc''"
    by (simp add: request_def index_def)
  have dv: "db_DefaultVersion (database_of prod_vpc_registry []) ''prod/vpc'' = Inr ''v2''"
    by (simp add: database_of_def DefaultVersion_def versions_of_def prod_vpc_registry_def)
  have ld: "db_GetState (database_of prod_vpc_registry []) ''prod/vpc'' ''v2'' = ''snapshot-2''"
    by (simp add: database_of_def LoadVersion_def prod_vpc_registry_def)
  have m: "marshal string_json ''snapshot-2'' = Inr ''\"snapshot-2\"''"
    by (simp add: string_json_def plain_quote_def)
  from GetState_default_version[OF q, of string_json w0 "database_of prod_vpc_registry []"]
  show ?thesis using q dv by (simp add: l ld m w0_def)
qed

text \<open>
  Claim C4, as amended. The claim says that an explicit version identifier is validated
  against the lineage and that the request fails with \<open>VersionNotFoundError\<close> when it does
  not belong. The handler has no such check: for a request with a non-empty
  \<^verbatim>\<open>versionid\<close> the single call to the database is \<open>GetState\<close> for the lineage of the
  request and that identifier, unchanged; the response is the marshalled state that the
  call returns, whatever the identifier, and the only error response is that of a failed
  marshal.
\<close>

theorem GetState_explicit_version_unchecked:
  assumes "Get (query r) ''versionid'' = v" and "v \<noteq> []"
  shows "calls (GetState js w r d) = calls w @ [GetStateCall (index (vars r) ''lineage'') v] \<and>
         (\<forall>j. marshal js (db_GetState d (index (vars r) ''lineage'') v) = Inr j \<and> werr w = None
               \<longrightarrow> body (GetState js w r d) = body w @ j \<and> logged (GetState js w r d) = logged w) \<and>
         (\<forall>err. marshal js (db_GetState d (index (vars r) ''lineage'') v) = Inl err
               \<longrightarrow> GetState js w r d =
                     JSONError js (w\<lparr>calls := calls w @ [GetStateCall (index (vars r) ''lineage'') v]\<rparr>)
                       ''Failed to marshal state'' err)"
  unfolding GetState_explicit_versionid[OF assms]
  by (auto simp: calls_JSONError calls_write_or_log body_write_or_log logged_write_or_log split: sum.splits)

theorem GetState_explicit_version_unchecked_witness:
  "Get (query (request ''prod/vpc'' [(''versionid'', ''v1'')])) ''versionid'' = ''v1'' \<and> ''v1'' \<noteq> [] \<and>
   calls (GetState string_json w0 (request ''prod/vpc'' [(''versionid'', ''v1'')]) (database_of prod_vpc_registry []))
     = [GetStateCall ''prod/vpc'' ''v1''] \<and>
   body (GetState string_json w0 (request ''prod/vpc'' [(''versionid'', ''v1'')]) (database_of prod_vpc_registry []))
     = ''\"snapshot-1\"''"
proof -
  let ?r = "request ''prod/vpc'' [(''versionid'', ''v1'')]"
  have q: "Get (query ?r) ''versionid'' = ''v1''" by (simp add: request_def Get_def)
  have n: "''v1'' \<noteq> []" by simp
  have l: "index (vars ?r) ''lineage'' = ''prod/vpc''" by (simp add: request_def index_def)
  have ld: "db_GetState (database_of prod_vpc_registry []) ''prod/vpc'' ''v1'' = ''snapshot-1''"
    by (simp add: database_of_def LoadVersion_def prod_vpc_registry_def)
  have m: "marshal string_json ''snapshot-1'' = Inr ''\"snapshot-1\"''"
    by (simp add: string_json_def plain_quote_def)
  from GetState_explicit_version_unchecked[OF q n, of string_json w0 "database_of prod_vpc_registry []"]
  show ?thesis using q by (simp add: l ld m w0_def)
qed

text \<open>
  The claim as stated fails: the lineage \<^verbatim>\<open>prod/vpc\<close> has the versions \<^verbatim>\<open>v1\<close> and \<^verbatim>\<open>v2\<close>,
  the request names \<^verbatim>\<open>v9\<close>, and the response is the marshalled empty state, with nothing
  logged and no error object.
\<close>

theorem GetState_unknown_version_counterexample:
  "Get (query (request ''prod/vpc'' [(''versionid'', ''v9'')])) ''versionid'' = ''v9'' \<and>
   \<not> belongs prod_vpc_registry ''prod/vpc'' ''v9'' \<and>
   GetState string_json w0 (request ''prod/vpc'' [(''versionid'', ''v9'')]) (database_of prod_vpc_registry [])
     = \<lparr>body = ''\"\"'', werr = None, logged = [], calls = [GetStateCall ''prod/vpc'' ''v9'']\<rparr>"
  by (simp add: request_def Get_def index_def belongs_def versions_of_def prod_vpc_registry_def
      GetState_def call_GetState_def database_of_def LoadVersion_def string_json_def plain_quote_def
      write_or_log_def WriteString_def w0_def)

text \<open>
  Claim C5. With the \<open>DefaultVersion\<close> of the specification as the accessor of the
  database, a request without a version identifier for a lineage that has no recorded
  version fails with \<open>UnknownLineageError\<close>: the lookup returns that error, the handler
  hands the error object with the message \<^verbatim>\<open>Failed to retrieve default version\<close> to the
  writer, and no state is loaded (the only call to the database is the lookup).
\<close>

theorem GetState_unknown_lineage:
  assumes "db_DefaultVersion d = DefaultVersion reg"
    and "versions_of reg (index (vars r) ''lineage'') = []"
    and "Get (query r) ''versionid'' = []"
  shows "\<exists>err. db_DefaultVersion d (index (vars r) ''lineage'') = Inl err \<and>
               kind err = UnknownLineageError \<and>
               GetState js w r d =
                 write_or_log (w\<lparr>calls := calls w @ [DefaultVersionCall (index (vars r) ''lineage'')]\<rparr>)
                   (error_payload js ''Failed to retrieve default version'' err) \<and>
               calls (GetState js w r d) = calls w @ [DefaultVersionCall (index (vars r) ''lineage'')]"
  unfolding GetState_empty_versionid[OF assms(3)]
  using assms(1,2)
  by (simp add: DefaultVersion_def JSONError_eq calls_write_or_log)

theorem GetState_unknown_lineage_witness:
  "db_DefaultVersion (database_of prod_vpc_registry []) = DefaultVersion prod_vpc_registry \<and>
   versions_of prod_vpc_registry (index (vars (request ''prod/db'' [])) ''lineage'') = [] \<and>
   Get (query (request ''prod/db'' [])) ''versionid'' = [] \<and>
   GetState string_json w0 (request ''prod/db'' []) (database_of prod_vpc_registry [])
     = \<lparr>body = ''{\"details\":\"prod/db\",\"error\":\"Failed to retrieve default version\"}'',
        werr = None, logged = [], calls = [DefaultVersionCall ''prod/db'']\<rparr>"
proof -
  let ?r = "request ''prod/db'' []"
  let ?d = "database_of prod_vpc_registry []"
  have a: "db_DefaultVersion ?d = DefaultVersion prod_vpc_registry" by (simp add: database_of_def)
  have l: "index (vars ?r) ''lineage'' = ''prod/db''" by (simp add: request_def index_def)
  have b: "versions_of prod_vpc_registry (index (vars ?r) ''lineage'') = []"
    by (simp add: l versions_of_def prod_vpc_registry_def)
  have c: "Get (query ?r) ''versionid'' = []" by (simp add: request_def Get_def)
  have e: "DefaultVersion prod_vpc_registry ''prod/db'' = Inl (Err UnknownLineageError ''prod/db'')"
    using b by (simp add: l DefaultVersion_def)
  from GetState_unknown_lineage[OF a b c, of string_json w0]
  show ?thesis using a b c
    by (auto simp: l e error_payload_def string_json_def plain_quote_def write_or_log_def WriteString_def w0_def)
qed

subsection \<open>StateCompare\<close>

text \<open>
  Claim C10. For every comparison request the handler makes two calls to the database,
  \<open>GetState\<close> for the \<^verbatim>\<open>from\<close> version and \<open>GetState\<close> for the \<^verbatim>\<open>to\<close> version, both with the
  one lineage of the request; every call it makes names that lineage, and the two
  states that it passes to \<open>Compare\<close> are the results of these two calls.
\<close>

theorem StateCompare_same_lineage:
  "calls (StateCompare cmp js w r d) =
     calls w @ [GetStateCall (index (vars r) ''lineage'') (Get (query r) ''from''),
                GetStateCall (index (vars r) ''lineage'') (Get (query r) ''to'')] \<and>
   (\<forall>c \<in> set (drop (length (calls w)) (calls (StateCompare cmp js w r d))).
      call_lineage c = index (vars r) ''lineage'') \<and>
   StateCompare cmp js w r d =
     (case cmp (db_GetState d (index (vars r) ''lineage'') (Get (query r) ''from''))
               (db_GetState d (index (vars r) ''lineage'') (Get (query r) ''to'')) of
        Inl err \<Rightarrow>
          JSONError js (w\<lparr>calls := calls w @ [GetStateCall (index (vars r) ''lineage'') (Get (query r) ''from''),
                                              GetStateCall (index (vars r) ''lineage'') (Get (query r) ''to'')]\<rparr>)
            ''Failed to compare state versions'' err
      | Inr compare \<Rightarrow>
          (case marshal js compare of
             Inl err \<Rightarrow>
               JSONError js (w\<lparr>calls := calls w @ [GetStateCall (index (vars r) ''lineage'') (Get (query r) ''from''),
                                                   GetStateCall (index (vars r) ''lineage'') (Get (query r) ''to'')]\<rparr>)
                 ''Failed to marshal state compare'' err
           | Inr j \<Rightarrow>
               write_or_log (w\<lparr>calls := calls w @ [GetStateCall (index (vars r) ''lineage'') (Get (query r) ''from''),
                                                   GetStateCall (index (vars r) ''lineage'') (Get (query r) ''to'')]\<rparr>) j))"
  by (simp add: StateCompare_def Let_def call_GetState_def calls_JSONError calls_write_or_log split: sum.splits)

theorem StateCompare_same_lineage_witness:
  "calls (StateCompare Compare entries_json w0
            (request ''prod/vpc'' [(''from'', ''v1''), (''to'', ''v2'')]) (database_of tree_registry []))
     = [GetStateCall ''prod/vpc'' ''v1'', GetStateCall ''prod/vpc'' ''v2''] \<and>
   call_lineage (GetStateCall ''prod/vpc'' ''v1'') = ''prod/vpc'' \<and>
   call_lineage (GetStateCall ''prod/vpc'' ''v2'') = ''prod/vpc'' \<and>
   body (StateCompare Compare entries_json w0
           (request ''prod/vpc'' [(''from'', ''v1''), (''to'', ''v2'')]) (database_of tree_registry []))
     = ''[\"cidr_block\",\"cidr_block\"]''"
proof -
  let ?r = "request ''prod/vpc'' [(''from'', ''v1''), (''to'', ''v2'')]"
  let ?d = "database_of tree_registry []"
  have l: "index (vars ?r) ''lineage'' = ''prod/vpc''" by (simp add: request_def index_def)
  have f: "Get (query ?r) ''from'' = ''v1''" by (simp add: request_def Get_def)
  have t: "Get (query ?r) ''to'' = ''v2''" by (simp add: request_def Get_def)
  have s1: "db_GetState ?d ''prod/vpc'' ''v1'' = prod_vpc_v1"
    by (simp add: database_of_def LoadVersion_def tree_registry_def)
  have s2: "db_GetState ?d ''prod/vpc'' ''v2'' = prod_vpc_v2"
    by (simp add: database_of_def LoadVersion_def tree_registry_def)
  have m: "marshal entries_json
             [\<lparr>resource = subnet_a, path = ''cidr_block'', change = added, old_value = None,
               new_value = Some ''10.1.1.0/24''\<rparr>,
              \<lparr>resource = vpc_main, path = ''cidr_block'', change = modified,
               old_value = Some ''10.0.0.0/16'', new_value = Some ''10.1.0.0/16''\<rparr>]
           = Inr ''[\"cidr_block\",\"cidr_block\"]''"
    by (simp add: entries_json_def plain_quote_def)
  from StateCompare_same_lineage[of Compare entries_json w0 ?r ?d]
  show ?thesis
    by (simp add: l f t s1 s2 Compare_prod_vpc m w0_def write_or_log_def WriteString_def)
qed

subsection \<open>Compare\<close>

text \<open>
  Claim C7. \<open>Compare\<close> of the specification gives the same sequence of change entries, in
  the same order, whenever it is given the same two well-formed trees: the entries of a
  tree and the attributes of a resource may be met in any order of iteration, and the
  result does not depend on it.
\<close>

theorem Compare_deterministic:
  assumes "well_formed s" and "well_formed s'" and "same_tree s s'"
    and "well_formed t" and "well_formed t'" and "same_tree t t'"
  shows "Compare s t = Compare s' t'"
proof -
  have "sort_key entry_key (changes s t) = sort_key entry_key (changes s' t')"
    using changes_distinct[OF assms(1) assms(4)] changes_distinct[OF assms(2) assms(5)]
      changes_same_tree[OF assms]
    by (rule sort_key_unique)
  then show ?thesis using assms by (simp add: Compare_def)
qed

theorem Compare_deterministic_witness:
  "well_formed prod_vpc_v1 \<and> well_formed prod_vpc_v1' \<and> same_tree prod_vpc_v1 prod_vpc_v1' \<and>
   well_formed prod_vpc_v2 \<and> well_formed prod_vpc_v2' \<and> same_tree prod_vpc_v2 prod_vpc_v2' \<and>
   prod_vpc_v1 \<noteq> prod_vpc_v1' \<and> prod_vpc_v2 \<noteq> prod_vpc_v2' \<and>
   Compare prod_vpc_v1' prod_vpc_v2' =
     Inr [\<lparr>resource = subnet_a, path = ''cidr_block'', change = added, old_value = None,
           new_value = Some ''10.1.1.0/24''\<rparr>,
          \<lparr>resource = vpc_main, path = ''cidr_block'', change = modified,
           old_value = Some ''10.0.0.0/16'', new_value = Some ''10.1.0.0/16''\<rparr>]"
proof -
  have w1: "well_formed prod_vpc_v1" by (simp add: well_formed_def prod_vpc_v1_def)
  have w1': "well_formed prod_vpc_v1'" by (simp add: well_formed_def prod_vpc_v1'_def)
  have w2: "well_formed prod_vpc_v2"
    by (simp add: well_formed_def prod_vpc_v2_def vpc_main_def subnet_a_def)
  have w2': "well_formed prod_vpc_v2'"
    by (simp add: well_formed_def prod_vpc_v2'_def vpc_main_def subnet_a_def)
  have e1: "same_tree prod_vpc_v1 prod_vpc_v1'"
    by (simp add: same_tree_def prod_vpc_v1_def prod_vpc_v1'_def insert_commute)
  have e2: "same_tree prod_vpc_v2 prod_vpc_v2'"
    by (simp add: same_tree_def prod_vpc_v2_def prod_vpc_v2'_def insert_commute)
  have n1: "prod_vpc_v1 \<noteq> prod_vpc_v1'" by (simp add: prod_vpc_v1_def prod_vpc_v1'_def)
  have n2: "prod_vpc_v2 \<noteq> prod_vpc_v2'"
    by (simp add: prod_vpc_v2_def prod_vpc_v2'_def vpc_main_def subnet_a_def)
  from Compare_deterministic[OF w1 w1' e1 w2 w2' e2]
  show ?thesis using w1 w1' e1 w2 w2' e2 n1 n2 by (simp add: Compare_prod_vpc)
qed

end
